theory Spec2Isabelle
  imports Main
begin

section \<open>Strings as Python handles them\<close>

text \<open>
  A Python \<open>str\<close> is modelled as a \<open>string\<close> (a list of 8-bit characters). The case
  functions and the whitespace test below act on the ASCII range exactly as Python's
  \<open>str.lower\<close>, \<open>str.capitalize\<close>, \<open>str.title\<close>, \<open>str.isupper\<close> and \<open>str.isspace\<close> do;
  every character outside the ASCII letters has no case, and every character outside the
  ASCII whitespace set is not whitespace.
\<close>

definition upper_chars :: string where
  "upper_chars = ''ABCDEFGHIJKLMNOPQRSTUVWXYZ''"

definition lower_chars :: string where
  "lower_chars = ''abcdefghijklmnopqrstuvwxyz''"

definition is_upper :: "char \<Rightarrow> bool" where
  "is_upper c = (c \<in> set upper_chars)"

definition is_lower :: "char \<Rightarrow> bool" where
  "is_lower c = (c \<in> set lower_chars)"

definition to_lower :: "char \<Rightarrow> char" where
  "to_lower c = (case map_of (zip upper_chars lower_chars) c of Some d \<Rightarrow> d | None \<Rightarrow> c)"

definition to_upper :: "char \<Rightarrow> char" where
  "to_upper c = (case map_of (zip lower_chars upper_chars) c of Some d \<Rightarrow> d | None \<Rightarrow> c)"

text \<open>\<open>str.isspace\<close> on one ASCII character: tab, line feed, vertical tab, form feed,
  carriage return, the four separators 0x1C to 0x1F, and the space. The same set is what
  \<open>\s\<close> matches in a \<open>str\<close> pattern of the \<open>re\<close> module.\<close>

definition isspace :: "char \<Rightarrow> bool" where
  "isspace c = (c \<in> set [CHR 0x09, CHR 0x0A, CHR 0x0B, CHR 0x0C, CHR 0x0D,
                           CHR 0x1C, CHR 0x1D, CHR 0x1E, CHR 0x1F, CHR 0x20])"

text \<open>\<open>s.lower()\<close>\<close>

definition lower :: "string \<Rightarrow> string" where
  "lower s = map to_lower s"

text \<open>\<open>s.capitalize()\<close>: the first character upper-cased, the rest lower-cased.\<close>

fun capitalize :: "string \<Rightarrow> string" where
  "capitalize [] = []"
| "capitalize (c # cs) = to_upper c # map to_lower cs"

text \<open>\<open>s.title()\<close>: a cased character that follows an uncased one (or starts the string)
  is upper-cased, a cased character that follows a cased one is lower-cased. The flag is
  Python's \<open>previous_is_cased\<close>.\<close>

fun title_from :: "bool \<Rightarrow> string \<Rightarrow> string" where
  "title_from previous_is_cased [] = []"
| "title_from previous_is_cased (c # cs) =
     (if is_lower c then
        (if previous_is_cased then c else to_upper c) # title_from True cs
      else if is_upper c then
        (if previous_is_cased then to_lower c else c) # title_from True cs
      else c # title_from False cs)"

definition title :: "string \<Rightarrow> string" where
  "title s = title_from False s"

text \<open>\<open>s.split()\<close> with no argument: the maximal runs of non-whitespace characters.\<close>

function split_ws :: "string \<Rightarrow> string list" where
  "split_ws [] = []"
| "split_ws (c # cs) =
     (if isspace c then split_ws cs
      else (c # takeWhile (\<lambda>x. \<not> isspace x) cs) # split_ws (dropWhile (\<lambda>x. \<not> isspace x) cs))"
  by pat_completeness auto
termination
  by (relation "measure length") (auto simp: less_Suc_eq_le length_dropWhile_le)

text \<open>\<open>' '.join(words)\<close>\<close>

fun join :: "string list \<Rightarrow> string" where
  "join [] = []"
| "join [w] = w"
| "join (w # v # ws) = w @ CHR '' '' # join (v # ws)"

text \<open>\<open>s.strip()\<close>: leading and trailing whitespace removed.\<close>

definition strip :: "string \<Rightarrow> string" where
  "strip s = rev (dropWhile isspace (rev (dropWhile isspace s)))"

text \<open>\<open>sub in s\<close> on strings: \<open>sub\<close> occurs as a contiguous substring of \<open>s\<close>.\<close>

fun starts_with :: "string \<Rightarrow> string \<Rightarrow> bool" where
  "starts_with [] s = True"
| "starts_with (p # ps) [] = False"
| "starts_with (p # ps) (c # cs) = (p = c \<and> starts_with ps cs)"

fun contains :: "string \<Rightarrow> string \<Rightarrow> bool" where
  "contains sub [] = (sub = [])"
| "contains sub (c # cs) = (starts_with sub (c # cs) \<or> contains sub cs)"

text \<open>\<open>words.index(word)\<close>: the first index holding \<open>word\<close>; \<open>None\<close> stands for the
  \<open>ValueError\<close> Python raises when there is none.\<close>

fun index_of :: "string \<Rightarrow> string list \<Rightarrow> nat option" where
  "index_of w [] = None"
| "index_of w (x # xs) =
     (if x = w then Some 0 else (case index_of w xs of None \<Rightarrow> None | Some n \<Rightarrow> Some (Suc n)))"

text \<open>\<open>re.split(r'([.!?]\s+)', text)\<close>: the text is cut at every leftmost match of one of
  \<open>.\<close>, \<open>!\<close>, \<open>?\<close> followed by a greedy run of at least one whitespace character; because
  the pattern is a capturing group, each delimiter is returned as a segment of its own
  between the pieces it separates. The first argument is the piece read so far.\<close>

function re_split_from :: "string \<Rightarrow> string \<Rightarrow> string list" where
  "re_split_from seg [] = [seg]"
| "re_split_from seg (c # cs) =
     (if c \<in> set ''.!?'' \<and> cs \<noteq> [] \<and> isspace (hd cs)
      then seg # (c # takeWhile isspace cs) # re_split_from [] (dropWhile isspace cs)
      else re_split_from (seg @ [c]) cs)"
  by pat_completeness auto
termination
  by (relation "measure (\<lambda>(seg, rest). length rest)")
     (auto simp: less_Suc_eq_le length_dropWhile_le)

definition re_split :: "string \<Rightarrow> string list" where
  "re_split text = re_split_from [] text"

section \<open>The Name Store (\<open>geo_capitalizer.py\<close>)\<close>

text \<open>
  The SQLite table behind \<open>GeoCapitalizer.lookup_name\<close> is outside the program, so the
  model takes its answer as a parameter: a \<open>name_store\<close> gives, for a queried text, the
  \<open>name\<close> column of the row \<open>lookup_name\<close> selects (the column is \<open>TEXT NOT NULL\<close>), and
  \<open>None\<close> when no row matches. This is \<open>get_correct_capitalization\<close>.
\<close>

type_synonym name_store = "string \<Rightarrow> string option"

text \<open>\<open>check_capitalization\<close>: \<open>(None, None)\<close> for an unknown text is \<open>None\<close> here, and
  \<open>(is_correct, correct_form)\<close> is \<open>Some (is_correct, correct_form)\<close>.\<close>

definition check_capitalization :: "name_store \<Rightarrow> string \<Rightarrow> (bool \<times> string) option" where
  "check_capitalization geo text =
     (case geo text of
        None \<Rightarrow> None
      | Some correct_form \<Rightarrow> Some (text = correct_form, correct_form))"

section \<open>The rule tables of \<open>IntegratedCapitalizer.__init__\<close>\<close>

definition days :: "string list" where
  "days = [''monday'', ''tuesday'', ''wednesday'', ''thursday'', ''friday'', ''saturday'',
           ''sunday'']"

definition months :: "string list" where
  "months = [''january'', ''february'', ''march'', ''april'', ''may'', ''june'',
             ''july'', ''august'', ''september'', ''october'', ''november'', ''december'']"

definition holidays :: "string list" where
  "holidays = [''christmas'', ''easter'', ''thanksgiving'', ''halloween'',
               ''valentine'', ''independence day'', ''new year'']"

definition languages :: "string list" where
  "languages = [''english'', ''spanish'', ''french'', ''german'', ''italian'',
                ''chinese'', ''japanese'', ''russian'', ''arabic'']"

definition military_ranks :: "string list" where
  "military_ranks = [''captain'', ''colonel'', ''general'', ''lieutenant'',
                     ''sergeant'', ''major'', ''admiral'', ''commander'']"

definition titles :: "string list" where
  "titles = [''president'', ''senator'', ''governor'', ''mayor'', ''doctor'',
             ''professor'', ''judge'', ''reverend'']"

definition religions :: "string list" where
  "religions = [''christianity'', ''islam'', ''judaism'', ''buddhism'', ''hinduism'']"

definition deities :: "string list" where
  "deities = [''god'', ''allah'', ''buddha'', ''jesus'', ''christ'']"

definition seasons :: "string list" where
  "seasons = [''spring'', ''summer'', ''fall'', ''autumn'', ''winter'']"

definition directions :: "string list" where
  "directions = [''north'', ''south'', ''east'', ''west'', ''northern'', ''southern'',
                 ''eastern'', ''western'']"

section \<open>\<open>check_word\<close>\<close>

text \<open>The only exception Python can raise inside the analysis, apart from a failing
  store, is an index out of range.\<close>

datatype py_error = IndexError

type_synonym decision = "bool \<times> string \<times> string"

text \<open>Priority 4, the loop over the holiday terms. \<open>None\<close> means the loop ended without
  returning.\<close>

fun holiday_rule :: "string \<Rightarrow> string \<Rightarrow> string \<Rightarrow> string list \<Rightarrow> decision option" where
  "holiday_rule word word_lower context [] = None"
| "holiday_rule word word_lower context (holiday # rest) =
     (if (word_lower = holiday \<or> contains holiday (lower context))
         \<and> word \<noteq> title word_lower
      then Some (True, title word_lower, ''Holiday'')
      else holiday_rule word word_lower context rest)"

text \<open>Priority 6, the body under the test that the word is a rank or a title.
  \<open>Inr None\<close> means the rule did not return; \<open>Inl IndexError\<close> is what \<open>next_word[0]\<close>
  raises on an empty \<open>next_word\<close> (the \<open>except\<close> clause catches \<open>ValueError\<close> only).\<close>

definition rank_title_rule :: "string \<Rightarrow> string \<Rightarrow> string \<Rightarrow> py_error + decision option" where
  "rank_title_rule word word_lower context =
     (let context_words = split_ws context in
      case index_of word context_words of
        None \<Rightarrow> Inr None
      | Some word_index \<Rightarrow>
          if word_index + 1 < length context_words then
            (let next_word = context_words ! (word_index + 1) in
             case next_word of
               [] \<Rightarrow> Inl IndexError
             | first # _ \<Rightarrow>
                 if is_upper first \<and> word \<noteq> capitalize word_lower
                 then Inr (Some (True, capitalize word_lower,
                                 (if word_lower \<in> set military_ranks
                                  then ''Military rank'' else ''Title'') @ '' before name''))
                 else Inr None)
          else Inr None)"

text \<open>Priorities 7 to the end: religions, deities, seasons, directions.\<close>

definition check_word_tail :: "string \<Rightarrow> string \<Rightarrow> decision" where
  "check_word_tail word word_lower =
     (if word_lower \<in> set religions \<and> word \<noteq> capitalize word_lower
      then (True, capitalize word_lower, ''Religion'')
      else if word_lower \<in> set deities
              \<and> word_lower \<in> set [''god'', ''allah'', ''jesus'', ''christ'', ''buddha'']
              \<and> word \<noteq> capitalize word_lower
      then (True, capitalize word_lower, ''Deity'')
      else if word_lower \<in> set seasons \<and> word \<noteq> word_lower
      then (True, word_lower, ''Season (lowercase)'')
      else (False, word, ''Correct''))"

definition check_word :: "name_store \<Rightarrow> string \<Rightarrow> string \<Rightarrow> py_error + decision" where
  "check_word geo word context =
     (let word_lower = lower word in
      case check_capitalization geo word of
        Some (is_correct, correct_form) \<Rightarrow>
          if \<not> is_correct then Inr (True, correct_form, ''Geographic name'')
          else Inr (False, word, ''Correct'')
      | None \<Rightarrow>
          if word_lower \<in> set days \<and> word \<noteq> capitalize word_lower
          then Inr (True, capitalize word_lower, ''Day of week'')
          else if word_lower \<in> set months \<and> word \<noteq> capitalize word_lower
          then Inr (True, capitalize word_lower, ''Month'')
          else
            (case holiday_rule word word_lower context holidays of
               Some d \<Rightarrow> Inr d
             | None \<Rightarrow>
                 if word_lower \<in> set languages \<and> word \<noteq> capitalize word_lower
                 then Inr (True, capitalize word_lower, ''Language'')
                 else if word_lower \<in> set military_ranks \<or> word_lower \<in> set titles
                 then
                   (case rank_title_rule word word_lower context of
                      Inl e \<Rightarrow> Inl e
                    | Inr (Some d) \<Rightarrow> Inr d
                    | Inr None \<Rightarrow> Inr (check_word_tail word word_lower))
                 else Inr (check_word_tail word word_lower)))"

section \<open>\<open>check_phrase\<close>\<close>

record correction =
  position :: nat
  original :: string
  correct :: string
  reason :: string

text \<open>A \<open>for\<close> loop over a list with a state and a body that may raise.\<close>

fun for_each :: "('a \<Rightarrow> 's \<Rightarrow> py_error + 's) \<Rightarrow> 'a list \<Rightarrow> 's \<Rightarrow> py_error + 's" where
  "for_each body [] s = Inr s"
| "for_each body (x # xs) s =
     (case body x s of Inl e \<Rightarrow> Inl e | Inr s' \<Rightarrow> for_each body xs s')"

text \<open>The geographic test of a joined span: \<open>Some correct_form\<close> when the span is known
  and differs from its canonical form, the case in which the loop appends and continues.\<close>

definition span_correction :: "name_store \<Rightarrow> string \<Rightarrow> string option" where
  "span_correction geo span =
     (case check_capitalization geo span of
        Some (is_correct, correct_form) \<Rightarrow> if \<not> is_correct then Some correct_form else None
      | None \<Rightarrow> None)"

text \<open>The single-word branch at the end of the loop body.\<close>

definition word_step ::
  "name_store \<Rightarrow> string \<Rightarrow> string list \<Rightarrow> nat \<Rightarrow> correction list \<Rightarrow> py_error + correction list"
where
  "word_step geo phrase words i corrections =
     (let word = words ! i in
      case check_word geo word phrase of
        Inl e \<Rightarrow> Inl e
      | Inr (needs_correction, correct_form, why) \<Rightarrow>
          if needs_correction
          then Inr (corrections @ [\<lparr>position = i, original = word,
                                    correct = correct_form, reason = why\<rparr>])
          else Inr corrections)"

text \<open>The 2-word branch and what follows it.\<close>

definition two_word_step ::
  "name_store \<Rightarrow> string \<Rightarrow> string list \<Rightarrow> nat \<Rightarrow> correction list \<Rightarrow> py_error + correction list"
where
  "two_word_step geo phrase words i corrections =
     (if i + 1 < length words then
        (let two_word = join (take 2 (drop i words)) in
         case span_correction geo two_word of
           Some correct_form \<Rightarrow>
             Inr (corrections @ [\<lparr>position = i, original = two_word, correct = correct_form,
                                   reason = ''Geographic name (2 words)''\<rparr>])
         | None \<Rightarrow> word_step geo phrase words i corrections)
      else word_step geo phrase words i corrections)"

text \<open>One pass of the loop body for index \<open>i\<close>; the index is always below
  \<open>length words\<close>, since it comes from \<open>range(len(words))\<close>.\<close>

definition phrase_step ::
  "name_store \<Rightarrow> string \<Rightarrow> string list \<Rightarrow> nat \<Rightarrow> correction list \<Rightarrow> py_error + correction list"
where
  "phrase_step geo phrase words i corrections =
     (if i + 2 < length words then
        (let three_word = join (take 3 (drop i words)) in
         case span_correction geo three_word of
           Some correct_form \<Rightarrow>
             Inr (corrections @ [\<lparr>position = i, original = three_word, correct = correct_form,
                                   reason = ''Geographic name (3 words)''\<rparr>])
         | None \<Rightarrow> two_word_step geo phrase words i corrections)
      else two_word_step geo phrase words i corrections)"

definition check_phrase :: "name_store \<Rightarrow> string \<Rightarrow> py_error + correction list" where
  "check_phrase geo phrase =
     (let words = split_ws phrase in
      for_each (phrase_step geo phrase words) [0..<length words] [])"

section \<open>\<open>correct_text\<close>\<close>

text \<open>\<open>sorted(corrections, key=lambda x: x['position'], reverse=True)\<close>: a stable sort in
  descending order of position.\<close>

definition sorted_reverse :: "correction list \<Rightarrow> correction list" where
  "sorted_reverse corrections = rev (sort_key position (rev corrections))"

text \<open>The body of the inner loop. The state is the pair of \<open>corrected\<close> and \<open>changes\<close>;
  the assignment \<open>words[p] = ...\<close> raises when \<open>p\<close> is not an index of \<open>words\<close>.\<close>

definition apply_correction ::
  "correction \<Rightarrow> string \<times> correction list \<Rightarrow> py_error + string \<times> correction list"
where
  "apply_correction c st =
     (case st of (corrected, changes) \<Rightarrow>
        (let words = split_ws corrected in
         if position c < length words
         then Inr (join (words[position c := correct c]), changes @ [c])
         else Inl IndexError))"

text \<open>The inner loop: the Text Rewriter applied to one sentence.\<close>

definition apply_corrections ::
  "string \<Rightarrow> correction list \<Rightarrow> correction list \<Rightarrow> py_error + string \<times> correction list"
where
  "apply_corrections sentence corrections changes =
     for_each apply_correction (sorted_reverse corrections) (sentence, changes)"

text \<open>The body of the outer loop, on the pair of \<open>corrected_sentences\<close> and \<open>changes\<close>.\<close>

definition sentence_step ::
  "name_store \<Rightarrow> string \<Rightarrow> string list \<times> correction list
     \<Rightarrow> py_error + string list \<times> correction list"
where
  "sentence_step geo sentence st =
     (case st of (corrected_sentences, changes) \<Rightarrow>
        if strip sentence = [] then Inr (corrected_sentences @ [sentence], changes)
        else
          (case check_phrase geo sentence of
             Inl e \<Rightarrow> Inl e
           | Inr corrections \<Rightarrow>
               (case apply_corrections sentence corrections changes of
                  Inl e \<Rightarrow> Inl e
                | Inr (corrected, changes') \<Rightarrow>
                    Inr (corrected_sentences @ [corrected], changes'))))"

definition correct_text :: "name_store \<Rightarrow> string \<Rightarrow> py_error + string \<times> correction list" where
  "correct_text geo text =
     (case for_each (sentence_step geo) (re_split text) ([], []) of
        Inl e \<Rightarrow> Inl e
      | Inr (corrected_sentences, changes) \<Rightarrow> Inr (concat corrected_sentences, changes))"

section \<open>\<open>analyze_text\<close>\<close>

text \<open>\<open>stats[reason] = stats.get(reason, 0) + 1\<close> on a dictionary kept as an association
  list in insertion order.\<close>

fun count_reason :: "string \<Rightarrow> (string \<times> nat) list \<Rightarrow> (string \<times> nat) list" where
  "count_reason r [] = [(r, 1)]"
| "count_reason r ((k, n) # kvs) =
     (if k = r then (k, n + 1) # kvs else (k, n) # count_reason r kvs)"

record analysis =
  original_text :: string
  corrected_text :: string
  changes :: "correction list"
  stats :: "(string \<times> nat) list"
  total_corrections :: nat

definition analyze_text :: "name_store \<Rightarrow> string \<Rightarrow> py_error + analysis" where
  "analyze_text geo text =
     (case correct_text geo text of
        Inl e \<Rightarrow> Inl e
      | Inr (corrected, chs) \<Rightarrow>
          Inr \<lparr>original_text = text, corrected_text = corrected, changes = chs,
               stats = foldl (\<lambda>st change. count_reason (reason change) st) [] chs,
               total_corrections = length chs\<rparr>)"

section \<open>Notions used in the proofs, and the stores of the examples\<close>

text \<open>A token is what \<open>split_ws\<close> returns: a non-empty string without whitespace.\<close>

definition is_token :: "string \<Rightarrow> bool" where
  "is_token t = (t \<noteq> [] \<and> list_all (\<lambda>c. \<not> isspace c) t)"

text \<open>What one pass of the loop body of \<open>check_phrase\<close> appends at index \<open>i\<close>.\<close>

definition emitted :: "name_store \<Rightarrow> string \<Rightarrow> string list \<Rightarrow> nat \<Rightarrow> correction list" where
  "emitted geo phrase words i =
     (case phrase_step geo phrase words i [] of Inl e \<Rightarrow> [] | Inr cs \<Rightarrow> cs)"

text \<open>A store that knows nothing.\<close>

definition no_store :: name_store where
  "no_store s = None"

text \<open>A store whose only name is New York, found whatever the case of the query.\<close>

definition ny_store :: name_store where
  "ny_store s = (if lower s = ''new york'' then Some ''New York'' else None)"

text \<open>A store that knows New York and York.\<close>

definition york_store :: name_store where
  "york_store s =
     (if lower s = ''new york'' then Some ''New York''
      else if lower s = ''york'' then Some ''York'' else None)"

text \<open>A store that knows New York City, New York and a place called New.\<close>

definition nyc_store :: name_store where
  "nyc_store s =
     (if lower s = ''new york city'' then Some ''New York City''
      else if lower s = ''new york'' then Some ''New York''
      else if lower s = ''new'' then Some ''New'' else None)"

text \<open>A store with a place whose canonical name is the lower-case word \<open>monday\<close>.\<close>

definition monday_store :: name_store where
  "monday_store s = (if lower s = ''monday'' then Some ''monday'' else None)"

section \<open>Splitting and joining\<close>

lemma split_ws_tokens: "list_all is_token (split_ws s)"
proof (induction s rule: split_ws.induct)
  case 1
  show ?case by simp
next
  case (2 c cs)
  have "list_all (\<lambda>x. \<not> isspace x) (takeWhile (\<lambda>x. \<not> isspace x) cs)"
    by (auto simp: list_all_iff dest: set_takeWhileD)
  with 2 show ?case by (simp add: is_token_def)
qed

lemma split_ws_token: "is_token t \<Longrightarrow> split_ws t = [t]"
proof (cases t)
  case Nil
  then show "is_token t \<Longrightarrow> ?thesis" by (simp add: is_token_def)
next
  case (Cons c cs)
  assume "is_token t"
  with Cons have c: "\<not> isspace c" and cs: "\<forall>x\<in>set cs. \<not> isspace x"
    by (simp_all add: is_token_def list_all_iff)
  from cs have tw: "takeWhile (\<lambda>x. \<not> isspace x) cs = cs"
    and dw: "dropWhile (\<lambda>x. \<not> isspace x) cs = []"
    by (simp_all add: takeWhile_eq_all_conv dropWhile_eq_Nil_conv)
  from Cons c show ?thesis by (simp add: tw dw)
qed

lemma split_ws_append_space:
  "isspace sp \<Longrightarrow> split_ws (a @ sp # b) = split_ws a @ split_ws b"
proof (induction a rule: split_ws.induct)
  case 1
  then show ?case by simp
next
  case (2 c cs)
  show ?case
  proof (cases "isspace c")
    case True
    with 2 show ?thesis by simp
  next
    case False
    show ?thesis
    proof (cases "\<forall>x\<in>set cs. \<not> isspace x")
      case True
      then have eqs: "takeWhile (\<lambda>x. \<not> isspace x) (cs @ sp # b) = cs"
        "dropWhile (\<lambda>x. \<not> isspace x) (cs @ sp # b) = sp # b"
        "takeWhile (\<lambda>x. \<not> isspace x) cs = cs"
        "dropWhile (\<lambda>x. \<not> isspace x) cs = []"
        using 2(3) by (simp_all add: takeWhile_eq_all_conv dropWhile_eq_Nil_conv)
      from False 2(3) show ?thesis by (simp add: eqs)
    next
      case ex: False
      then obtain x where x: "x \<in> set cs" "\<not> (\<not> isspace x)" by auto
      have eqs: "takeWhile (\<lambda>x. \<not> isspace x) (cs @ sp # b) = takeWhile (\<lambda>x. \<not> isspace x) cs"
        "dropWhile (\<lambda>x. \<not> isspace x) (cs @ sp # b) = dropWhile (\<lambda>x. \<not> isspace x) cs @ sp # b"
        using x by (simp_all add: takeWhile_append1 dropWhile_append1)
      from False 2(2)[OF False 2(3)] show ?thesis by (simp add: eqs)
    qed
  qed
qed

lemma split_ws_join: "split_ws (join ws) = concat (map split_ws ws)"
proof (induction ws rule: join.induct)
  case 1 show ?case by simp
next
  case (2 w) show ?case by simp
next
  case (3 w v ws)
  have "isspace (CHR '' '')" by (simp add: isspace_def)
  from split_ws_append_space[OF this] 3 show ?case by simp
qed

lemma concat_map_split_ws_tokens:
  "list_all is_token ts \<Longrightarrow> concat (map split_ws ts) = ts"
  by (induction ts) (simp_all add: split_ws_token)

lemma length_split_ws_update:
  assumes "p < length (split_ws s)"
  shows "p \<le> length (split_ws (join ((split_ws s)[p := x])))"
proof -
  let ?ws = "split_ws s"
  have tk: "list_all is_token (take p ?ws)"
    using split_ws_tokens[of s] by (auto simp: list_all_iff dest: in_set_takeD)
  have "?ws[p := x] = take p ?ws @ x # drop (Suc p) ?ws"
    using assms by (simp add: upd_conv_take_nth_drop)
  then have "split_ws (join (?ws[p := x]))
      = take p ?ws @ split_ws x @ concat (map split_ws (drop (Suc p) ?ws))"
    using tk by (simp add: split_ws_join concat_map_split_ws_tokens)
  then show ?thesis using assms by simp
qed

lemma concat_re_split_from: "concat (re_split_from seg t) = seg @ t"
proof (induction seg t rule: re_split_from.induct)
  case (1 seg) show ?case by simp
next
  case (2 seg c cs)
  show ?case
  proof (cases "c \<in> set ''.!?'' \<and> cs \<noteq> [] \<and> isspace (hd cs)")
    case True
    with 2(1) show ?thesis by simp
  next
    case False
    from 2(2)[OF False] False show ?thesis by (simp only: re_split_from.simps if_False append_assoc append.simps)
  qed
qed

lemma starts_with_iff: "starts_with p s \<longleftrightarrow> (\<exists>b. s = p @ b)"
  by (induction p s rule: starts_with.induct) auto

lemma starts_with_contains: "starts_with sub s \<Longrightarrow> contains sub s"
  by (cases s; cases sub) simp_all

lemma contains_iff: "contains sub s \<longleftrightarrow> (\<exists>a b. s = a @ sub @ b)"
proof (induction s)
  case Nil show ?case by auto
next
  case (Cons c cs)
  show ?case
  proof
    assume "contains sub (c # cs)"
    then consider "starts_with sub (c # cs)" | "contains sub cs" by auto
    then show "\<exists>a b. c # cs = a @ sub @ b"
    proof cases
      case 1 then obtain b where "c # cs = sub @ b" by (auto simp: starts_with_iff)
      then have "c # cs = [] @ sub @ b" by simp
      then show ?thesis by blast
    next
      case 2 with Cons obtain a b where "cs = a @ sub @ b" by auto
      then have "c # cs = (c # a) @ sub @ b" by simp
      then show ?thesis by blast
    qed
  next
    assume "\<exists>a b. c # cs = a @ sub @ b"
    then obtain a b where ab: "c # cs = a @ sub @ b" by auto
    show "contains sub (c # cs)"
    proof (cases a)
      case Nil with ab have "starts_with sub (c # cs)" by (simp add: starts_with_iff)
      then show ?thesis by (rule starts_with_contains)
    next
      case (Cons a0 as) with ab have "cs = as @ sub @ b" by simp
      with Cons.IH show ?thesis by auto
    qed
  qed
qed

section \<open>The scanner never fails and emits one correction per index at most\<close>

lemma index_of_less: "index_of w xs = Some n \<Longrightarrow> n < length xs"
  by (induction xs arbitrary: n) (auto split: if_splits option.splits)

lemma rank_title_rule_total: "\<exists>d. rank_title_rule word word_lower ctx = Inr d"
proof (cases "index_of word (split_ws ctx)")
  case None
  then show ?thesis by (simp add: rank_title_rule_def)
next
  case (Some n)
  show ?thesis
  proof (cases "n + 1 < length (split_ws ctx)")
    case False
    with Some show ?thesis by (simp add: rank_title_rule_def)
  next
    case True
    then have "split_ws ctx ! (n + 1) \<in> set (split_ws ctx)" by simp
    with split_ws_tokens[of ctx] have "is_token (split_ws ctx ! (n + 1))"
      by (simp add: list_all_iff)
    then obtain f r where "split_ws ctx ! (n + 1) = f # r"
      by (cases "split_ws ctx ! (n + 1)") (simp_all add: is_token_def)
    with Some True show ?thesis by (simp add: rank_title_rule_def Let_def)
  qed
qed

lemma check_word_total: "\<exists>n cf r. check_word geo word ctx = Inr (n, cf, r)"
proof (cases "check_capitalization geo word")
  case (Some p)
  then show ?thesis by (cases p) (auto simp add: check_word_def Let_def)
next
  case None
  show ?thesis
  proof (cases "holiday_rule word (lower word) ctx holidays")
    case (Some d)
    obtain n cf r where "d = (n, cf, r)" by (cases d)
    with Some None show ?thesis by (auto simp add: check_word_def Let_def)
  next
    case hol: None
    obtain r where r: "rank_title_rule word (lower word) ctx = Inr r"
      using rank_title_rule_total by blast
    obtain tn tcf tr where t: "check_word_tail word (lower word) = (tn, tcf, tr)"
      by (cases "check_word_tail word (lower word)")
    show ?thesis
    proof (cases r)
      case None
      with r hol t \<open>check_capitalization geo word = None\<close> show ?thesis
        by (auto simp add: check_word_def Let_def)
    next
      case (Some d)
      obtain n cf rr where "d = (n, cf, rr)" by (cases d)
      with Some r hol t \<open>check_capitalization geo word = None\<close> show ?thesis
        by (auto simp add: check_word_def Let_def)
    qed
  qed
qed

lemma word_step_append:
  "\<exists>cs. word_step geo phrase words i acc = Inr (acc @ cs) \<and>
        word_step geo phrase words i [] = Inr cs \<and> list_all (\<lambda>c. position c = i) cs \<and> length cs \<le> 1"
proof -
  obtain n cf r where "check_word geo (words ! i) phrase = Inr (n, cf, r)"
    using check_word_total by blast
  then show ?thesis by (simp add: word_step_def Let_def)
qed

lemma two_word_step_append:
  "\<exists>cs. two_word_step geo phrase words i acc = Inr (acc @ cs) \<and>
        two_word_step geo phrase words i [] = Inr cs \<and> list_all (\<lambda>c. position c = i) cs \<and> length cs \<le> 1"
  using word_step_append[of geo phrase words i acc]
  by (auto simp add: two_word_step_def Let_def split: option.split)

lemma phrase_step_append:
  "\<exists>cs. phrase_step geo phrase words i acc = Inr (acc @ cs) \<and>
        phrase_step geo phrase words i [] = Inr cs \<and> list_all (\<lambda>c. position c = i) cs \<and> length cs \<le> 1"
  using two_word_step_append[of geo phrase words i acc]
  by (auto simp add: phrase_step_def Let_def split: option.split)

lemma phrase_step_emitted:
  "phrase_step geo phrase words i acc = Inr (acc @ emitted geo phrase words i)"
  using phrase_step_append[of geo phrase words i acc] by (auto simp: emitted_def)

lemma emitted_position: "list_all (\<lambda>c. position c = i) (emitted geo phrase words i)"
  using phrase_step_append[of geo phrase words i "[]"] by (auto simp: emitted_def)

lemma for_each_phrase_step:
  "for_each (phrase_step geo phrase words) is acc =
     Inr (acc @ concat (map (emitted geo phrase words) is))"
  by (induction "is" arbitrary: acc) (simp_all add: phrase_step_emitted)

lemma check_phrase_emitted:
  "check_phrase geo phrase =
     Inr (concat (map (emitted geo phrase (split_ws phrase)) [0..<length (split_ws phrase)]))"
  by (simp add: check_phrase_def Let_def for_each_phrase_step)

lemma emitted_length: "length (emitted geo phrase words i) \<le> 1"
  using phrase_step_append[of geo phrase words i "[]"] by (auto simp: emitted_def)

lemma positions_concat:
  assumes "\<And>i. list_all (\<lambda>c. position c = i) (f i)"
    and "\<And>i. length (f i) \<le> 1"
  shows "sorted_wrt (<) (map position (concat (map f [0..<n])))
       \<and> list_all (\<lambda>c. position c < n) (concat (map f [0..<n]))"
proof (induction n)
  case 0
  show ?case by simp
next
  case (Suc n)
  have one: "sorted_wrt (<) (map position (f n))"
    using assms(2)[of n] by (cases "f n") auto
  have pos: "\<forall>c\<in>set (f n). position c = n"
    using assms(1)[of n] by (simp add: list_all_iff)
  from Suc have below: "\<forall>c\<in>set (concat (map f [0..<n])). position c < n"
    by (simp add: list_all_iff)
  have "sorted_wrt (<) (map position (concat (map f [0..<n]) @ f n))"
    unfolding map_append sorted_wrt_append using Suc one pos below by auto
  moreover have "\<forall>c\<in>set (concat (map f [0..<n])). position c < Suc n"
    using below by (meson less_SucI)
  then have "list_all (\<lambda>c. position c < Suc n) (concat (map f [0..<n]) @ f n)"
    using pos unfolding list_all_append by (simp add: list_all_iff)
  ultimately show ?case by simp
qed

lemma check_phrase_positions:
  "\<exists>cs. check_phrase geo phrase = Inr cs \<and> sorted_wrt (<) (map position cs)
        \<and> list_all (\<lambda>c. position c < length (split_ws phrase)) cs"
  using positions_concat[of "emitted geo phrase (split_ws phrase)" "length (split_ws phrase)",
      OF emitted_position emitted_length]
  by (simp add: check_phrase_emitted)

section \<open>The rewriting loop\<close>

lemma insort_key_last:
  "\<forall>x\<in>set xs. f x < f y \<Longrightarrow> insort_key f y xs = xs @ [y]"
  for f :: "'a \<Rightarrow> nat"
  by (induction xs) auto

lemma sort_key_rev_increasing:
  "sorted_wrt (<) (map f xs) \<Longrightarrow> sort_key f (rev xs) = xs"
  for f :: "'a \<Rightarrow> nat"
proof (induction xs rule: rev_induct)
  case Nil
  show ?case by simp
next
  case (snoc y ys)
  from snoc.prems have ys: "sorted_wrt (<) (map f ys)" and lt: "\<forall>x\<in>set ys. f x < f y"
    by (auto simp: sorted_wrt_append)
  from snoc.IH[OF ys] lt show ?case by (simp add: insort_key_last)
qed

lemma sorted_reverse_increasing:
  "sorted_wrt (<) (map position cs) \<Longrightarrow> sorted_reverse cs = rev cs"
  by (simp add: sorted_reverse_def sort_key_rev_increasing)

lemma length_sorted_reverse: "length (sorted_reverse cs) = length cs"
  by (simp add: sorted_reverse_def)

lemma apply_correction_simp:
  "apply_correction c (s, ch) =
     (if position c < length (split_ws s)
      then Inr (join ((split_ws s)[position c := correct c]), ch @ [c])
      else Inl IndexError)"
  by (simp add: apply_correction_def Let_def)

lemma for_each_apply_changes:
  "for_each apply_correction cs (s, ch) = Inr (s', ch') \<Longrightarrow> ch' = ch @ cs"
proof (induction cs arbitrary: s ch)
  case Nil
  then show ?case by simp
next
  case (Cons c cs)
  show ?case
  proof (cases "position c < length (split_ws s)")
    case False
    with Cons.prems show ?thesis by (simp add: apply_correction_simp)
  next
    case True
    with Cons.prems
    have "for_each apply_correction cs (join ((split_ws s)[position c := correct c]), ch @ [c])
        = Inr (s', ch')"
      by (simp add: apply_correction_simp)
    from Cons.IH[OF this] show ?thesis by simp
  qed
qed

lemma for_each_apply_total:
  "sorted_wrt (>) (map position cs) \<Longrightarrow>
   \<forall>c\<in>set cs. position c < length (split_ws s) \<Longrightarrow>
   \<exists>s'. for_each apply_correction cs (s, ch) = Inr (s', ch @ cs)"
proof (induction cs arbitrary: s ch)
  case Nil
  show ?case by simp
next
  case (Cons c cs)
  let ?s = "join ((split_ws s)[position c := correct c])"
  from Cons.prems have p: "position c < length (split_ws s)" by simp
  from Cons.prems have dec: "sorted_wrt (>) (map position cs)"
    and lt: "\<forall>d\<in>set cs. position d < position c" by auto
  from length_split_ws_update[OF p, of "correct c"] lt
  have "\<forall>d\<in>set cs. position d < length (split_ws ?s)" by auto
  from Cons.IH[OF dec this, of "ch @ [c]"] p show ?case
    by (simp add: apply_correction_simp)
qed

lemma apply_corrections_total:
  assumes "sorted_wrt (<) (map position cs)"
    and "list_all (\<lambda>c. position c < length (split_ws s)) cs"
  shows "\<exists>s'. apply_corrections s cs ch = Inr (s', ch @ rev cs)"
proof -
  have "sorted_wrt (>) (map position (rev cs))"
    using assms(1) by (simp add: sorted_wrt_rev rev_map[symmetric])
  moreover have "\<forall>c\<in>set (rev cs). position c < length (split_ws s)"
    using assms(2) by (simp add: list_all_iff)
  ultimately show ?thesis
    using for_each_apply_total[of "rev cs" s ch]
    by (simp add: apply_corrections_def sorted_reverse_increasing[OF assms(1)])
qed

lemma sentence_step_total:
  "\<exists>out ch'. sentence_step geo sentence (acc, ch) = Inr (out, ch')"
proof -
  obtain cs where cs: "check_phrase geo sentence = Inr cs"
    "sorted_wrt (<) (map position cs)"
    "list_all (\<lambda>c. position c < length (split_ws sentence)) cs"
    using check_phrase_positions by blast
  obtain s' where "apply_corrections sentence cs ch = Inr (s', ch @ rev cs)"
    using apply_corrections_total[OF cs(2,3)] by blast
  with cs(1) show ?thesis by (simp add: sentence_step_def)
qed

lemma for_each_sentence_total:
  "\<exists>out ch'. for_each (sentence_step geo) segs (acc, ch) = Inr (out, ch')"
proof (induction segs arbitrary: acc ch)
  case Nil
  show ?case by simp
next
  case (Cons sg segs)
  obtain out ch1 where "sentence_step geo sg (acc, ch) = Inr (out, ch1)"
    using sentence_step_total by blast
  with Cons[of out ch1] show ?case by simp
qed

lemma correct_text_total: "\<exists>out chs. correct_text geo inp = Inr (out, chs)"
  using for_each_sentence_total[of geo "re_split inp" "[]" "[]"]
  by (auto simp: correct_text_def)

lemma analyze_text_total: "\<exists>r. analyze_text geo inp = Inr r"
  using correct_text_total[of geo inp] by (auto simp: analyze_text_def)

lemma sentence_step_changes:
  assumes "sentence_step geo sg (acc, ch) = Inr (out, ch1)"
  shows "\<exists>extra. ch1 = ch @ extra \<and> (extra = [] \<longrightarrow> out = acc @ [sg])"
proof (cases "strip sg = []")
  case True
  with assms show ?thesis by (simp add: sentence_step_def)
next
  case False
  obtain cs where cs: "check_phrase geo sg = Inr cs"
    using check_phrase_positions by blast
  with assms False obtain s' where
    ap: "apply_corrections sg cs ch = Inr (s', ch1)" and out: "out = acc @ [s']"
    by (auto simp: sentence_step_def split: sum.splits prod.splits)
  from ap have ch1: "ch1 = ch @ sorted_reverse cs"
    by (simp add: apply_corrections_def for_each_apply_changes)
  have "sorted_reverse cs = [] \<longrightarrow> s' = sg"
  proof
    assume "sorted_reverse cs = []"
    with ap show "s' = sg" by (simp add: apply_corrections_def)
  qed
  with ch1 out show ?thesis by simp
qed

lemma for_each_sentence_verbatim:
  "for_each (sentence_step geo) segs (acc, ch) = Inr (out, []) \<Longrightarrow> out = acc @ segs \<and> ch = []"
proof (induction segs arbitrary: acc ch)
  case Nil
  then show ?case by simp
next
  case (Cons sg segs)
  obtain out1 ch1 where st: "sentence_step geo sg (acc, ch) = Inr (out1, ch1)"
    using sentence_step_total by blast
  with Cons.prems have "for_each (sentence_step geo) segs (out1, ch1) = Inr (out, [])"
    by simp
  from Cons.IH[OF this] have o: "out = out1 @ segs" and c1: "ch1 = []" by simp_all
  from sentence_step_changes[OF st] c1 have "ch = []" "out1 = acc @ [sg]" by auto
  with o show ?case by simp
qed

lemma correct_text_verbatim:
  assumes "correct_text geo inp = Inr (out, [])"
  shows "out = inp"
proof -
  from assms obtain ss where f: "for_each (sentence_step geo) (re_split inp) ([], []) = Inr (ss, [])"
    and o: "out = concat ss"
    by (auto simp: correct_text_def split: sum.splits prod.splits)
  from for_each_sentence_verbatim[OF f] have "ss = re_split inp" by simp
  with o show ?thesis by (simp add: re_split_def concat_re_split_from)
qed

section \<open>The claims\<close>

lemma holiday_rule_fires:
  "h \<in> set hs \<Longrightarrow> word_lower = h \<or> contains h (lower ctx) \<Longrightarrow> word \<noteq> title word_lower \<Longrightarrow>
   holiday_rule word word_lower ctx hs = Some (True, title word_lower, ''Holiday'')"
  by (induction hs) auto

lemma check_word_unknown:
  "geo w = None \<Longrightarrow> check_word geo w ctx = check_word no_store w ctx"
  by (simp add: check_word_def check_capitalization_def no_store_def)

lemma filter_position_emitted:
  "filter (\<lambda>c. position c = i) (emitted geo phrase words j)
     = (if j = i then emitted geo phrase words j else [])"
  using emitted_position[of j geo phrase words]
  by (auto simp: list_all_iff filter_empty_conv intro: filter_True)

lemma concat_map_single_index:
  "i < n \<Longrightarrow> concat (map (\<lambda>j. if j = i then f j else []) [0..<n]) = f i"
  for f :: "nat \<Rightarrow> 'a list"
proof (induction n)
  case 0
  then show ?case by simp
next
  case (Suc n)
  show ?case
  proof (cases "i = n")
    case True
    have "concat (map (\<lambda>j. if j = i then f j else []) [0..<n]) = []"
      using True by (simp add: concat_eq_Nil_conv)
    with True show ?thesis by simp
  next
    case False
    with Suc show ?thesis by simp
  qed
qed

lemma check_phrase_at_index:
  assumes "i < length (split_ws phrase)"
  shows "\<exists>cs. check_phrase geo phrase = Inr cs
     \<and> filter (\<lambda>c. position c = i) cs = emitted geo phrase (split_ws phrase) i"
proof -
  have "filter (\<lambda>c. position c = i)
          (concat (map (emitted geo phrase (split_ws phrase)) [0..<length (split_ws phrase)]))
        = concat (map (\<lambda>j. if j = i then emitted geo phrase (split_ws phrase) j else [])
                   [0..<length (split_ws phrase)])"
    by (simp add: filter_concat comp_def filter_position_emitted)
  also have "\<dots> = emitted geo phrase (split_ws phrase) i"
    using assms by (rule concat_map_single_index)
  finally show ?thesis by (simp add: check_phrase_emitted)
qed

lemma emitted_two_word:
  assumes "i + 1 < length words"
    and "geo (join (take 2 (drop i words))) = Some cf"
    and "join (take 2 (drop i words)) \<noteq> cf"
  shows "emitted geo phrase words i =
     (case (if i + 2 < length words
            then span_correction geo (join (take 3 (drop i words))) else None) of
        Some c3 \<Rightarrow>
          [\<lparr>position = i, original = join (take 3 (drop i words)), correct = c3,
            reason = ''Geographic name (3 words)''\<rparr>]
      | None \<Rightarrow>
          [\<lparr>position = i, original = join (take 2 (drop i words)), correct = cf,
            reason = ''Geographic name (2 words)''\<rparr>])"
proof (cases "if i + 2 < length words
              then span_correction geo (join (take 3 (drop i words))) else None")
  case None
  then have "\<not> i + 2 < length words
      \<or> span_correction geo (join (take 3 (drop i words))) = None"
    by (simp split: if_splits)
  with assms None show ?thesis
    by (auto simp: emitted_def phrase_step_def two_word_step_def span_correction_def
        check_capitalization_def Let_def)
next
  case (Some c3)
  then have "i + 2 < length words"
    and "span_correction geo (join (take 3 (drop i words))) = Some c3"
    by (simp_all split: if_splits)
  then show ?thesis by (simp add: emitted_def phrase_step_def Let_def)
qed

text \<open>
  Claim C1 as stated fails. With a store whose only name is New York, the analysis of the
  example sentence makes one correction, not two: the last token is \<open>monday.\<close>, full stop
  included (no whitespace follows the full stop, so the sentence splitter leaves the text
  in one piece, and tokens are cut at whitespace only), and that token is not a day term.
  The corrected text is not the one the claim gives either.
\<close>

theorem C1_counterexample:
  "analyze_text ny_store ''I visited new york on monday.'' =
     Inr \<lparr>original_text = ''I visited new york on monday.'',
          corrected_text = ''I visited New York york on monday.'',
          changes = [\<lparr>position = 2, original = ''new york'', correct = ''New York'',
                      reason = ''Geographic name (2 words)''\<rparr>],
          stats = [(''Geographic name (2 words)'', 1)],
          total_corrections = 1\<rparr>"
  by code_simp

text \<open>
  Claim C1, amended: for the text \<open>I visited new york on monday.\<close> and every store that
  knows \<open>new york\<close> with canonical form \<open>New York\<close> and no other span of one, two or three
  tokens of that sentence, the analysis returns a result with exactly one change, the
  2-word geographic correction at token 2, the statistics
  \<open>{"Geographic name (2 words)": 1}\<close> and a total of 1. The token \<open>monday.\<close> gets no
  Day-of-week correction.
\<close>

theorem C1_one_correction:
  assumes ny: "geo ''new york'' = Some ''New York''"
    and others: "list_all (\<lambda>s. geo s = None)
       [''I visited new'', ''I visited'', ''I'',
        ''visited new york'', ''visited new'', ''visited'',
        ''new york on'', ''new'',
        ''york on monday.'', ''york on'', ''york'',
        ''on monday.'', ''on'', ''monday.'']"
  shows "\<exists>r. analyze_text geo ''I visited new york on monday.'' = Inr r
     \<and> changes r = [\<lparr>position = 2, original = ''new york'', correct = ''New York'',
                      reason = ''Geographic name (2 words)''\<rparr>]
     \<and> stats r = [(''Geographic name (2 words)'', 1)]
     \<and> total_corrections r = 1"
proof -
  let ?T = "''I visited new york on monday.''"
  let ?c = "\<lparr>position = 2, original = ''new york'', correct = ''New York'',
             reason = ''Geographic name (2 words)''\<rparr>"
  have w: "split_ws ?T = [''I'', ''visited'', ''new'', ''york'', ''on'', ''monday.'']"
    by code_simp
  have up: "[0..<6] = [0, 1, 2, 3, 4, 5]" by code_simp
  have cw: "check_word no_store ''I'' ?T = Inr (False, ''I'', ''Correct'')"
    "check_word no_store ''visited'' ?T = Inr (False, ''visited'', ''Correct'')"
    "check_word no_store ''york'' ?T = Inr (False, ''york'', ''Correct'')"
    "check_word no_store ''on'' ?T = Inr (False, ''on'', ''Correct'')"
    "check_word no_store ''monday.'' ?T = Inr (False, ''monday.'', ''Correct'')"
    by code_simp+
  from others have none: "geo ''I visited new'' = None" "geo ''I visited'' = None"
    "geo ''I'' = None" "geo ''visited new york'' = None" "geo ''visited new'' = None"
    "geo ''visited'' = None" "geo ''new york on'' = None" "geo ''york on monday.'' = None"
    "geo ''york on'' = None" "geo ''york'' = None" "geo ''on monday.'' = None"
    "geo ''on'' = None" "geo ''monday.'' = None"
    by simp_all
  have cp: "check_phrase geo ?T = Inr [?c]"
    unfolding check_phrase_def w Let_def
    by (simp add: up phrase_step_def two_word_step_def word_step_def span_correction_def
        check_capitalization_def check_word_unknown none ny cw)
  have rs: "re_split ?T = [?T]" by code_simp
  have st: "strip ?T \<noteq> []" by code_simp
  have ap: "apply_corrections ?T [?c] [] = Inr (''I visited New York york on monday.'', [?c])"
    by code_simp
  have "correct_text geo ?T = Inr (''I visited New York york on monday.'', [?c])"
    unfolding correct_text_def rs by (simp add: sentence_step_def st cp ap)
  then show ?thesis by (simp add: analyze_text_def)
qed

theorem C1_one_correction_witness:
  "\<exists>r. analyze_text ny_store ''I visited new york on monday.'' = Inr r
     \<and> changes r = [\<lparr>position = 2, original = ''new york'', correct = ''New York'',
                      reason = ''Geographic name (2 words)''\<rparr>]
     \<and> stats r = [(''Geographic name (2 words)'', 1)]
     \<and> total_corrections r = 1"
proof -
  have ny: "ny_store ''new york'' = Some ''New York''" by code_simp
  have others: "list_all (\<lambda>s. ny_store s = None)
       [''I visited new'', ''I visited'', ''I'',
        ''visited new york'', ''visited new'', ''visited'',
        ''new york on'', ''new'',
        ''york on monday.'', ''york on'', ''york'',
        ''on monday.'', ''on'', ''monday.'']" by code_simp
  from C1_one_correction [of ny_store, OF ny others] show ?thesis .
qed

text \<open>
  Claim C2, evaluated on the code. The scanner reports the 2-word span \<open>new york\<close> at
  position 0, and the rewriting loop then assigns the canonical form to the token at
  position 0 only: the span's second token \<open>york\<close> stays in the sentence after
  \<open>New York\<close>, where the claim says that no token of the span remains.
\<close>

theorem C2_span_rewrite_keeps_tail:
  "check_phrase ny_store ''new york'' =
     Inr [\<lparr>position = 0, original = ''new york'', correct = ''New York'',
            reason = ''Geographic name (2 words)''\<rparr>]
   \<and> apply_corrections ''new york''
        [\<lparr>position = 0, original = ''new york'', correct = ''New York'',
           reason = ''Geographic name (2 words)''\<rparr>] [] =
     Inr (''New York york'',
          [\<lparr>position = 0, original = ''new york'', correct = ''New York'',
             reason = ''Geographic name (2 words)''\<rparr>])"
  by code_simp

text \<open>
  Claim C3 as stated fails: with a store that knows both New York and York, the scanner
  reports the 2-word span at position 0 (tokens 0 and 1) and then a correction of the
  token at position 1, inside that span.
\<close>

theorem C3_counterexample:
  "check_phrase york_store ''new york'' =
     Inr [\<lparr>position = 0, original = ''new york'', correct = ''New York'',
            reason = ''Geographic name (2 words)''\<rparr>,
          \<lparr>position = 1, original = ''york'', correct = ''York'',
            reason = ''Geographic name''\<rparr>]"
  by code_simp

text \<open>
  Claim C3, amended: for every sentence the scanner returns a list of corrections whose
  positions are strictly increasing, so no two corrections start at the same token, and
  every position is the index of a token of the sentence.
\<close>

theorem C3_positions_increasing:
  "\<exists>cs. check_phrase geo phrase = Inr cs
        \<and> sorted_wrt (<) (map position cs)
        \<and> list_all (\<lambda>c. position c < length (split_ws phrase)) cs"
  by (rule check_phrase_positions)

theorem C3_positions_increasing_witness:
  "\<exists>cs. check_phrase york_store ''new york'' = Inr cs
        \<and> sorted_wrt (<) (map position cs)
        \<and> list_all (\<lambda>c. position c < length (split_ws ''new york'')) cs"
  using C3_positions_increasing [of york_store "''new york''"] by simp

text \<open>
  Claim C4 as stated fails where a 3-word geographic correction exists at the same start
  index: the store knows \<open>new york city\<close>, \<open>new york\<close> and \<open>new\<close>, and at index 0 the
  scanner reports the 3-word correction and neither the 2-word one nor the 1-word one.
\<close>

theorem C4_counterexample:
  "check_phrase nyc_store ''new york city'' =
     Inr [\<lparr>position = 0, original = ''new york city'', correct = ''New York City'',
            reason = ''Geographic name (3 words)''\<rparr>]"
  by code_simp

text \<open>
  Claim C4, amended: at a start index \<open>i\<close> where the 2-token span and the single token
  are both known to the store and both differ from their canonical forms, the scanner
  reports exactly one correction, and never the 1-word geographic correction of the
  token at \<open>i\<close>: the 3-word correction when there is a third token and the 3-token span
  is known and differs from its canonical form, and the 2-word correction otherwise.
\<close>

theorem C4_two_word_wins:
  assumes "i + 1 < length (split_ws phrase)"
    and "geo (join (take 2 (drop i (split_ws phrase)))) = Some c2"
    and "join (take 2 (drop i (split_ws phrase))) \<noteq> c2"
    and "geo (split_ws phrase ! i) = Some c1"
    and "split_ws phrase ! i \<noteq> c1"
  shows "\<exists>cs. check_phrase geo phrase = Inr cs
     \<and> filter (\<lambda>c. position c = i) cs =
         (case (if i + 2 < length (split_ws phrase)
                then span_correction geo (join (take 3 (drop i (split_ws phrase))))
                else None) of
            Some c3 \<Rightarrow>
              [\<lparr>position = i, original = join (take 3 (drop i (split_ws phrase))),
                correct = c3, reason = ''Geographic name (3 words)''\<rparr>]
          | None \<Rightarrow>
              [\<lparr>position = i, original = join (take 2 (drop i (split_ws phrase))),
                correct = c2, reason = ''Geographic name (2 words)''\<rparr>])
     \<and> \<lparr>position = i, original = split_ws phrase ! i, correct = c1,
          reason = ''Geographic name''\<rparr> \<notin> set cs"
proof -
  let ?one = "\<lparr>position = i, original = split_ws phrase ! i, correct = c1,
               reason = ''Geographic name''\<rparr>"
  from assms(1) have "i < length (split_ws phrase)" by simp
  from check_phrase_at_index[OF this, of geo] obtain cs where
    cs: "check_phrase geo phrase = Inr cs"
    and f: "filter (\<lambda>c. position c = i) cs = emitted geo phrase (split_ws phrase) i"
    by blast
  note e = emitted_two_word[where i = i and words = "split_ws phrase" and geo = geo
      and cf = c2 and phrase = phrase, OF assms(1,2,3)]
  have ne: "?one \<notin> set (emitted geo phrase (split_ws phrase) i)"
    unfolding e by (simp split: option.split)
  have "?one \<notin> set cs"
  proof
    assume "?one \<in> set cs"
    then have "?one \<in> set (filter (\<lambda>c. position c = i) cs)" by simp
    with f ne show False by simp
  qed
  with cs f e show ?thesis by simp
qed

theorem C4_two_word_wins_witness:
  "\<exists>cs. check_phrase nyc_store ''new york today'' = Inr cs
     \<and> filter (\<lambda>c. position c = 0) cs =
         [\<lparr>position = 0, original = ''new york'', correct = ''New York'',
           reason = ''Geographic name (2 words)''\<rparr>]
     \<and> \<lparr>position = 0, original = ''new'', correct = ''New'',
          reason = ''Geographic name''\<rparr> \<notin> set cs"
proof -
  have w: "split_ws ''new york today'' = [''new'', ''york'', ''today'']" by code_simp
  have g3: "span_correction nyc_store ''new york today'' = None" by code_simp
  have g2: "nyc_store ''new york'' = Some ''New York''" by code_simp
  have g1: "nyc_store ''new'' = Some ''New''" by code_simp
  from C4_two_word_wins [of 0 "''new york today''" nyc_store "''New York''" "''New''"]
    w g1 g2 g3
  show ?thesis by simp
qed

text \<open>
  Claim C5: a word the Name Store knows is resolved by the geographic rule alone. When
  the word equals its canonical form the answer is "no correction", reason \<open>Correct\<close>,
  whatever the lexical tables say about the word; otherwise the answer is the canonical
  form with reason \<open>Geographic name\<close>.
\<close>

theorem C5_geo_precedence:
  "geo w = Some cf \<Longrightarrow>
   check_word geo w ctx =
     Inr (if w = cf then (False, w, ''Correct'') else (True, cf, ''Geographic name''))"
  by (simp add: check_word_def check_capitalization_def Let_def)

theorem C5_geo_precedence_witness:
  "monday_store ''monday'' = Some ''monday''
   \<and> check_word monday_store ''monday'' ''see you on monday'' = Inr (False, ''monday'', ''Correct'')"
proof -
  have h: "monday_store ''monday'' = Some ''monday''" by code_simp
  from C5_geo_precedence [of monday_store "''monday''" "''monday''" "''see you on monday''", OF h] h
  show ?thesis by simp
qed

text \<open>
  Claim C6 as stated fails, with a store that knows nothing. In \<open>summer christmas\<close> the
  holiday term in the context makes the holiday rule title-case every word, so the first
  pass returns \<open>Summer Christmas\<close>; on that text the holiday rule finds \<open>Summer\<close> in
  title case already and falls through to the season rule, which lowers it again: the
  second pass makes one correction.
\<close>

theorem C6_counterexample:
  "analyze_text no_store ''summer christmas'' =
     Inr \<lparr>original_text = ''summer christmas'', corrected_text = ''Summer Christmas'',
          changes = [\<lparr>position = 1, original = ''christmas'', correct = ''Christmas'',
                      reason = ''Holiday''\<rparr>,
                     \<lparr>position = 0, original = ''summer'', correct = ''Summer'',
                      reason = ''Holiday''\<rparr>],
          stats = [(''Holiday'', 2)], total_corrections = 2\<rparr>
   \<and> analyze_text no_store ''Summer Christmas'' =
     Inr \<lparr>original_text = ''Summer Christmas'', corrected_text = ''summer Christmas'',
          changes = [\<lparr>position = 0, original = ''Summer'', correct = ''summer'',
                      reason = ''Season (lowercase)''\<rparr>],
          stats = [(''Season (lowercase)'', 1)], total_corrections = 1\<rparr>"
  by code_simp

text \<open>
  Claim C6, amended: a text on which the analysis makes no correction is a fixed point.
  If \<open>analyze\<close> of a text returns a result with \<open>total_corrections = 0\<close>, then \<open>analyze\<close> of
  that result's corrected text returns the same result, so it makes no correction either.
\<close>

theorem C6_idempotent_at_fixed_point:
  assumes "analyze_text geo inp = Inr r" and "total_corrections r = 0"
  shows "analyze_text geo (corrected_text r) = Inr r"
proof -
  obtain out chs where ct: "correct_text geo inp = Inr (out, chs)"
    using correct_text_total by blast
  with assms have "chs = []" "corrected_text r = out"
    by (auto simp: analyze_text_def)
  with ct correct_text_verbatim have "corrected_text r = inp" by simp
  with assms(1) show ?thesis by simp
qed

theorem C6_idempotent_at_fixed_point_witness:
  "analyze_text no_store ''Hello  world. Fine'' =
     Inr \<lparr>original_text = ''Hello  world. Fine'', corrected_text = ''Hello  world. Fine'',
          changes = [], stats = [], total_corrections = 0\<rparr>
   \<and> total_corrections
        \<lparr>original_text = ''Hello  world. Fine'', corrected_text = ''Hello  world. Fine'',
         changes = [], stats = [], total_corrections = 0\<rparr> = 0
   \<and> analyze_text no_store
        (corrected_text
          \<lparr>original_text = ''Hello  world. Fine'', corrected_text = ''Hello  world. Fine'',
           changes = [], stats = [], total_corrections = 0\<rparr>) =
     Inr \<lparr>original_text = ''Hello  world. Fine'', corrected_text = ''Hello  world. Fine'',
          changes = [], stats = [], total_corrections = 0\<rparr>"
proof -
  let ?r = "\<lparr>original_text = ''Hello  world. Fine'', corrected_text = ''Hello  world. Fine'',
             changes = [], stats = [], total_corrections = 0\<rparr>"
  have a: "analyze_text no_store ''Hello  world. Fine'' = Inr ?r" by code_simp
  have b: "total_corrections ?r = 0" by simp
  from C6_idempotent_at_fixed_point [of no_store "''Hello  world. Fine''" ?r, OF a b] a b
  show ?thesis by (simp only: simp_thms)
qed

text \<open>
  Claim C7 as stated fails: with an empty correction list the rewriting loop does not run
  and the sentence is returned as it is, two spaces included, which is not the sentence's
  tokens joined by single spaces.
\<close>

theorem C7_counterexample:
  "apply_corrections ''a  b'' [] [] = Inr (''a  b'', [])
   \<and> join (split_ws ''a  b'') = ''a b''
   \<and> ''a  b'' \<noteq> ''a b''"
  by code_simp

text \<open>
  Claim C7, amended: applying the Text Rewriter with an empty correction list returns the
  sentence unchanged, character for character, and adds no change. The sentence is split
  into tokens and rejoined with single spaces only when a correction is applied: for one
  correction whose position is a token index, the result is the token list with that
  token replaced, joined by single spaces.
\<close>

theorem C7_empty_corrections_verbatim:
  "apply_corrections s [] chs = Inr (s, chs)
   \<and> (position c < length (split_ws s) \<longrightarrow>
        apply_corrections s [c] chs
          = Inr (join ((split_ws s)[position c := correct c]), chs @ [c]))"
  by (simp add: apply_corrections_def sorted_reverse_def apply_correction_simp)

theorem C7_empty_corrections_verbatim_witness:
  "apply_corrections ''a  b'' [] [] = Inr (''a  b'', [])
   \<and> position \<lparr>position = 1, original = ''b'', correct = ''B'', reason = ''Deity''\<rparr>
       < length (split_ws ''a  b'')
   \<and> apply_corrections ''a  b''
        [\<lparr>position = 1, original = ''b'', correct = ''B'', reason = ''Deity''\<rparr>] []
      = Inr (''a B'', [\<lparr>position = 1, original = ''b'', correct = ''B'', reason = ''Deity''\<rparr>])"
proof -
  have w: "split_ws ''a  b'' = [''a'', ''b'']" by code_simp
  note t = C7_empty_corrections_verbatim
    [of "''a  b''" "[]" "\<lparr>position = 1, original = ''b'', correct = ''B'', reason = ''Deity''\<rparr>",
     unfolded w]
  show ?thesis unfolding w using t by simp
qed

text \<open>
  Claim C8: a word that the store does not know and whose lower-case form is neither a
  day nor a month is corrected to its title-case form with reason \<open>Holiday\<close> as soon as
  some holiday term equals the lower-case word or occurs in the lower-cased context, and
  the word differs from that title-case form.
\<close>

theorem C8_holiday_rule:
  assumes "geo w = None"
    and "lower w \<notin> set days" and "lower w \<notin> set months"
    and "h \<in> set holidays"
    and "lower w = h \<or> contains h (lower ctx)"
    and "w \<noteq> title (lower w)"
  shows "check_word geo w ctx = Inr (True, title (lower w), ''Holiday'')"
  using assms holiday_rule_fires[OF assms(4,5,6)]
  by (simp add: check_word_def check_capitalization_def Let_def)

theorem C8_holiday_rule_witness:
  "no_store ''hello'' = None
   \<and> lower ''hello'' \<notin> set days \<and> lower ''hello'' \<notin> set months
   \<and> ''christmas'' \<in> set holidays
   \<and> contains ''christmas'' (lower ''merry christmas'')
   \<and> ''hello'' \<noteq> title (lower ''hello'')
   \<and> check_word no_store ''hello'' ''merry christmas'' = Inr (True, ''Hello'', ''Holiday'')"
proof -
  have h1: "no_store ''hello'' = None" by (simp add: no_store_def)
  have h2: "lower ''hello'' \<notin> set days" by code_simp
  have h3: "lower ''hello'' \<notin> set months" by code_simp
  have h4: "''christmas'' \<in> set holidays" by code_simp
  have h5: "contains ''christmas'' (lower ''merry christmas'')" by code_simp
  have h6: "''hello'' \<noteq> title (lower ''hello'')" by code_simp
  have t: "title (lower ''hello'') = ''Hello''" by code_simp
  from C8_holiday_rule [of no_store "''hello''" "''christmas''" "''merry christmas''",
      OF h1 h2 h3 h4 disjI2 [OF h5] h6]
  show ?thesis using h1 h2 h3 h4 h5 h6 by (simp only: t simp_thms)
qed

text \<open>
  Claim C9: for every store that answers and every input string, \<open>analyze\<close> returns a
  result. In the model every index access of the source is a branch that returns
  \<open>IndexError\<close> when the index is out of range (the read of \<open>next_word[0]\<close> and of the
  next context token in the rank and title rule, the assignment \<open>words[position]\<close> in the
  rewriting loop), so a result means that none of them was out of range.
\<close>

theorem C9_analyze_total:
  "\<exists>r. analyze_text geo inp = Inr r \<and> original_text r = inp
       \<and> total_corrections r = length (changes r)"
  using correct_text_total[of geo inp] by (auto simp: analyze_text_def)

theorem C9_analyze_total_witness:
  "\<exists>r. analyze_text no_store [] = Inr r \<and> original_text r = []
       \<and> total_corrections r = length (changes r)"
  by (rule C9_analyze_total)

text \<open>
  Claim C10: when the analysis of a text makes no correction, the corrected text is the
  original text, character for character.
\<close>

theorem C10_no_corrections_verbatim:
  assumes "analyze_text geo inp = Inr r" and "total_corrections r = 0"
  shows "corrected_text r = inp"
proof -
  obtain out chs where ct: "correct_text geo inp = Inr (out, chs)"
    using correct_text_total by blast
  with assms have "chs = []" "corrected_text r = out"
    by (auto simp: analyze_text_def)
  with ct correct_text_verbatim show ?thesis by simp
qed

theorem C10_no_corrections_verbatim_witness:
  "analyze_text no_store ''See you   soon.  Bye'' =
     Inr \<lparr>original_text = ''See you   soon.  Bye'', corrected_text = ''See you   soon.  Bye'',
          changes = [], stats = [], total_corrections = 0\<rparr>
   \<and> corrected_text
        \<lparr>original_text = ''See you   soon.  Bye'', corrected_text = ''See you   soon.  Bye'',
         changes = [], stats = [], total_corrections = 0\<rparr> = ''See you   soon.  Bye''"
proof -
  let ?r = "\<lparr>original_text = ''See you   soon.  Bye'', corrected_text = ''See you   soon.  Bye'',
             changes = [], stats = [], total_corrections = 0\<rparr>"
  have a: "analyze_text no_store ''See you   soon.  Bye'' = Inr ?r" by code_simp
  have b: "total_corrections ?r = 0" by simp
  from C10_no_corrections_verbatim [of no_store "''See you   soon.  Bye''" ?r, OF a b] a
  show ?thesis by (simp only: simp_thms)
qed

end
